theory Spec2Isabelle
  imports Main
begin

section \<open>The slide set of HeroCarousel.tsx\<close>

text \<open>
  The component cycles through a fixed array of three image paths; the project names are
  paired with them by position. Both are module constants of the source.
\<close>

definition images :: "string list" where
  "images = [''/heroContainer/heroPic1.jpg'', ''/heroContainer/heroPic2.jpg'',
     ''/heroContainer/heroPic3.jpg'']"

definition projectNames :: "string list" where
  "projectNames = [''Indian Beauty'', ''Divine Culture'', ''Modern kick'']"

definition navItems :: "string list" where
  "navItems = [''Overview'', ''Projects'', ''Categories'', ''Motion'']"

text \<open>
  The remainder operator of the source language truncates towards zero: the result takes
  the sign of the dividend, where \<open>mod\<close> on \<open>int\<close> takes the sign of the divisor.
  (A zero divisor gives NaN in the source; the only divisor here is \<open>images.length\<close>.)
\<close>

definition js_rem :: "int \<Rightarrow> int \<Rightarrow> int" where
  "js_rem a b = sgn a * (\<bar>a\<bar> mod \<bar>b\<bar>)"

section \<open>The state hooks of the component\<close>

text \<open>
  One field per \<open>useState\<close> hook, in the order of the source. \<open>next\<close> and
  \<open>hoveredNav\<close> are \<open>number | null\<close>; the index of a navigation item is the
  position \<open>Array.map\<close> hands to its callback.
\<close>

record carousel =
  current :: int
  direction :: int
  isTransitioning :: bool
  "next" :: "int option"
  displayedIndex :: int
  hoveredNav :: "nat option"
  hoveredMe :: bool

definition initial :: carousel where
  "initial = \<lparr>current = 0, direction = 1, isTransitioning = False, next = None,
     displayedIndex = 0, hoveredNav = None, hoveredMe = False\<rparr>"

section \<open>The handlers\<close>

text \<open>
  The callback handed to \<open>setInterval\<close>. It reads \<open>current\<close> from the closure of the
  render in which the effect ran, hence the first argument; the four setters follow in the
  order of the source.
\<close>

definition advance :: "int \<Rightarrow> carousel \<Rightarrow> carousel" where
  "advance cur s =
     s\<lparr>direction := 1,
       next := Some (js_rem (cur + 1) (int (length images))),
       isTransitioning := True,
       displayedIndex := js_rem (cur + 1) (int (length images))\<rparr>"

text \<open>
  A scheduler tick: the effect is keyed on \<open>current\<close>, so the interval that is armed
  closed over the value of \<open>current\<close> the state holds.
\<close>

definition tick :: "carousel \<Rightarrow> carousel" where
  "tick s = advance (current s) s"

definition handleAnimationComplete :: "carousel \<Rightarrow> carousel" where
  "handleAnimationComplete s =
     (case next s of
        None \<Rightarrow> s
      | Some n \<Rightarrow>
          s\<lparr>current := n, next := None, isTransitioning := False, displayedIndex := n\<rparr>)"

text \<open>The four inline mouse handlers of the navigation items and of the label.\<close>

datatype hover = NavEnter nat | NavLeave | MeEnter | MeLeave

fun onMouse :: "carousel \<Rightarrow> hover \<Rightarrow> carousel" where
  "onMouse s (NavEnter idx) = s\<lparr>hoveredNav := Some idx\<rparr>"
| "onMouse s NavLeave = s\<lparr>hoveredNav := None\<rparr>"
| "onMouse s MeEnter = s\<lparr>hoveredMe := True\<rparr>"
| "onMouse s MeLeave = s\<lparr>hoveredMe := False\<rparr>"

section \<open>Runs of the state machine\<close>

text \<open>
  The event loop serialises the callbacks: a run is a list of events, applied from the
  left to the initial state.
\<close>

datatype event = Tick | AnimationComplete | Hover hover

fun step :: "carousel \<Rightarrow> event \<Rightarrow> carousel" where
  "step s Tick = tick s"
| "step s AnimationComplete = handleAnimationComplete s"
| "step s (Hover h) = onMouse s h"

definition run :: "event list \<Rightarrow> carousel" where
  "run evs = foldl step initial evs"

text \<open>\<open>k\<close> ticks, each one completed before the next: no tick overlaps a transition.\<close>

definition alternating :: "nat \<Rightarrow> event list" where
  "alternating k = concat (replicate k [Tick, AnimationComplete])"

text \<open>
  What every run keeps: \<open>current\<close> is an index, the flag and \<open>next\<close> agree, the entering
  slide is the successor of the current one, and the indicator shows the entering slide
  during a transition and the current one otherwise.
\<close>

definition consistent :: "carousel \<Rightarrow> bool" where
  "consistent s =
     (0 \<le> current s \<and> current s < int (length images) \<and>
      (case next s of
         None \<Rightarrow> \<not> isTransitioning s \<and> displayedIndex s = current s
       | Some n \<Rightarrow> isTransitioning s \<and> displayedIndex s = n \<and>
           n = (current s + 1) mod int (length images)))"

section \<open>The interval timer and the life of the component\<close>

text \<open>
  The effect of the component calls \<open>setInterval\<close>, keeps the handle in \<open>timer\<close> and
  returns a function that clears that handle; its dependency list is \<open>[current]\<close>. The
  timers belong to the browser, not to the component: they are an explicit table, from
  the handle to the \<open>current\<close> the armed callback closed over. One expiry of the period
  \<open>SLIDE_DURATION\<close> is one \<open>Fire\<close> signal; time itself is not modelled.
\<close>

definition SLIDE_DURATION :: nat where
  "SLIDE_DURATION = 3000"

record component =
  view :: carousel
  mounted :: bool
  timers :: "(nat \<times> int) list"
  cleanup :: "nat option"
  fresh :: nat

definition setInterval :: "int \<Rightarrow> component \<Rightarrow> component" where
  "setInterval cur c = c\<lparr>timers := timers c @ [(fresh c, cur)], fresh := Suc (fresh c)\<rparr>"

definition clearInterval :: "nat \<Rightarrow> component \<Rightarrow> component" where
  "clearInterval h c = c\<lparr>timers := filter (\<lambda>t. fst t \<noteq> h) (timers c)\<rparr>"

text \<open>The body of the effect, and the function it returns, kept until it is run.\<close>

definition effect :: "component \<Rightarrow> component" where
  "effect c = (setInterval (current (view c)) c)\<lparr>cleanup := Some (fresh c)\<rparr>"

definition runCleanup :: "component \<Rightarrow> component" where
  "runCleanup c =
     (case cleanup c of
        None \<Rightarrow> c
      | Some h \<Rightarrow> (clearInterval h c)\<lparr>cleanup := None\<rparr>)"

text \<open>
  A render after a state update: the effect runs again, after the cleanup of its last
  run, when \<open>current\<close> differs from the value of the render before.
\<close>

definition rerender :: "int \<Rightarrow> component \<Rightarrow> component" where
  "rerender before c = (if current (view c) = before then c else effect (runCleanup c))"

definition mount :: component where
  "mount = effect \<lparr>view = initial, mounted = True, timers = [], cleanup = None, fresh = 0\<rparr>"

definition unmount :: "component \<Rightarrow> component" where
  "unmount c = (runCleanup c)\<lparr>mounted := False\<rparr>"

text \<open>
  What reaches the component. A timer that is armed fires whether or not the component
  is still there; the animation and mouse callbacks belong to elements of the rendered
  view, which exist while the component is mounted.
\<close>

datatype signal = Fire nat | Completed | Pointer hover | Unmount

fun deliver :: "component \<Rightarrow> signal \<Rightarrow> component" where
  "deliver c (Fire h) =
     (case map_of (timers c) h of
        None \<Rightarrow> c
      | Some cur \<Rightarrow> rerender (current (view c)) (c\<lparr>view := advance cur (view c)\<rparr>))"
| "deliver c Completed =
     (if mounted c
      then rerender (current (view c)) (c\<lparr>view := handleAnimationComplete (view c)\<rparr>)
      else c)"
| "deliver c (Pointer h) =
     (if mounted c then rerender (current (view c)) (c\<lparr>view := onMouse (view c) h\<rparr>) else c)"
| "deliver c Unmount = (if mounted c then unmount c else c)"

definition play :: "signal list \<Rightarrow> component" where
  "play sigs = foldl deliver mount sigs"

text \<open>
  The timer table of a mounted component holds the one interval the pending cleanup will
  clear, and its callback closed over the \<open>current\<close> of the state; after the cleanup of
  an unmount the table is empty.
\<close>

definition armed :: "component \<Rightarrow> bool" where
  "armed c =
     (case cleanup c of
        None \<Rightarrow> \<not> mounted c \<and> timers c = []
      | Some h \<Rightarrow> mounted c \<and> timers c = [(h, current (view c))] \<and> h < fresh c)"

section \<open>Basic facts\<close>

lemma images_length: "int (length images) = 3"
  by (simp add: images_def)

lemma js_rem_nonneg: "0 \<le> a \<Longrightarrow> js_rem a b = a mod \<bar>b\<bar>"
  by (cases "a = 0") (simp_all add: js_rem_def)

lemma js_rem_succ: "0 \<le> c \<Longrightarrow> js_rem (c + 1) 3 = (c + 1) mod 3"
  by (simp add: js_rem_nonneg)

lemma run_Nil: "run [] = initial"
  by (simp add: run_def)

lemma run_snoc: "run (evs @ [e]) = step (run evs) e"
  by (simp add: run_def)

lemma run_append: "run (xs @ ys) = foldl step (run xs) ys"
  by (simp add: run_def)

lemma alternating_Suc: "alternating (Suc k) = alternating k @ [Tick, AnimationComplete]"
proof -
  have "replicate (Suc k) [Tick, AnimationComplete] =
      replicate k [Tick, AnimationComplete] @ [[Tick, AnimationComplete]]"
    by (simp add: replicate_append_same)
  then show ?thesis
    by (simp add: alternating_def del: replicate_Suc)
qed

lemma consistent_initial: "consistent initial"
  by (simp add: consistent_def initial_def images_length)

lemma consistent_tick: "consistent s \<Longrightarrow> consistent (tick s)"
  by (auto simp: consistent_def tick_def advance_def images_length js_rem_succ
      split: option.splits)

lemma consistent_complete: "consistent s \<Longrightarrow> consistent (handleAnimationComplete s)"
  by (auto simp: consistent_def handleAnimationComplete_def images_length
      split: option.splits)

lemma consistent_onMouse: "consistent s \<Longrightarrow> consistent (onMouse s h)"
  by (cases h) (auto simp: consistent_def split: option.splits)

lemma consistent_step: "consistent s \<Longrightarrow> consistent (step s e)"
  by (cases e) (simp_all add: consistent_tick consistent_complete consistent_onMouse)

lemma consistent_run: "consistent (run evs)"
  by (induction evs rule: rev_induct)
    (simp_all add: run_Nil run_snoc consistent_initial consistent_step)

lemma cycle_current:
  "0 \<le> current s \<Longrightarrow> current (handleAnimationComplete (tick s)) = (current s + 1) mod 3"
  by (simp add: handleAnimationComplete_def tick_def advance_def images_length js_rem_succ)

lemma consistent_range: "consistent s \<Longrightarrow> 0 \<le> current s \<and> current s < 3"
  by (simp add: consistent_def images_length)

section \<open>Facts about the timer table\<close>

lemma play_Nil: "play [] = mount"
  by (simp add: play_def)

lemma play_snoc: "play (sigs @ [sg]) = deliver (play sigs) sg"
  by (simp add: play_def)

lemma armed_mount: "armed mount"
  by (simp add: armed_def mount_def effect_def setInterval_def initial_def)

lemma armed_rerender:
  "armed c \<Longrightarrow> mounted c \<Longrightarrow> armed (rerender (current (view c)) (c\<lparr>view := v\<rparr>))"
  by (auto simp: armed_def rerender_def effect_def runCleanup_def setInterval_def
      clearInterval_def split: option.splits)

lemma armed_unmount: "armed c \<Longrightarrow> armed (unmount c)"
  by (auto simp: armed_def unmount_def runCleanup_def clearInterval_def split: option.splits)

lemma armed_fires:
  "armed c \<Longrightarrow> map_of (timers c) h = Some cur \<Longrightarrow> mounted c \<and> cur = current (view c)"
  by (auto simp: armed_def split: option.splits if_splits)

lemma armed_deliver: "armed c \<Longrightarrow> armed (deliver c sg)"
proof (cases sg)
  case (Fire h)
  assume a: "armed c"
  show ?thesis
  proof (cases "map_of (timers c) h")
    case None
    with a Fire show ?thesis by simp
  next
    case (Some cur)
    with a have "mounted c" by (simp add: armed_fires)
    with a Some Fire show ?thesis by (simp add: armed_rerender)
  qed
next
  case Completed
  assume "armed c"
  with Completed show ?thesis by (simp add: armed_rerender)
next
  case (Pointer h)
  assume "armed c"
  with Pointer show ?thesis by (simp add: armed_rerender)
next
  case Unmount
  assume "armed c"
  with Unmount show ?thesis by (simp add: armed_unmount)
qed

lemma armed_play: "armed (play sigs)"
  by (induction sigs rule: rev_induct) (simp_all add: play_Nil play_snoc armed_mount armed_deliver)

lemma view_rerender: "view (rerender b c) = view c"
  by (simp add: rerender_def effect_def runCleanup_def setInterval_def clearInterval_def
      split: option.splits)

lemma view_unmount: "view (unmount c) = view c"
  by (simp add: unmount_def runCleanup_def clearInterval_def split: option.splits)

lemma deliver_steps: "armed c \<Longrightarrow> \<exists>es. view (deliver c sg) = foldl step (view c) es"
proof (cases sg)
  case (Fire h)
  assume a: "armed c"
  show ?thesis
  proof (cases "map_of (timers c) h")
    case None
    with Fire have "view (deliver c sg) = foldl step (view c) []" by simp
    then show ?thesis by blast
  next
    case (Some cur)
    with a have "cur = current (view c)" by (simp add: armed_fires)
    with Some Fire have "view (deliver c sg) = foldl step (view c) [Tick]"
      by (simp add: view_rerender tick_def)
    then show ?thesis by blast
  qed
next
  case Completed
  have "view (deliver c sg) = foldl step (view c) (if mounted c then [AnimationComplete] else [])"
    using Completed by (simp add: view_rerender)
  then show ?thesis by blast
next
  case (Pointer h)
  have "view (deliver c sg) = foldl step (view c) (if mounted c then [Hover h] else [])"
    using Pointer by (simp add: view_rerender)
  then show ?thesis by blast
next
  case Unmount
  have "view (deliver c sg) = foldl step (view c) []"
    using Unmount by (simp add: view_unmount)
  then show ?thesis by blast
qed

text \<open>
  The view of the component only ever holds states of the state machine above: a timer
  that fires is a \<open>Tick\<close>, since its callback closed over the \<open>current\<close> of the state.
\<close>

lemma play_refines_run: "\<exists>evs. view (play sigs) = run evs"
proof (induction sigs rule: rev_induct)
  case Nil
  have "view (play []) = run []"
    by (simp add: play_Nil run_Nil mount_def effect_def setInterval_def)
  then show ?case by blast
next
  case (snoc sg sigs)
  then obtain evs where evs: "view (play sigs) = run evs" by blast
  obtain es where "view (deliver (play sigs) sg) = foldl step (view (play sigs)) es"
    using deliver_steps [OF armed_play] by blast
  with evs have "view (play (sigs @ [sg])) = run (evs @ es)"
    by (simp add: play_snoc run_append)
  then show ?case by blast
qed

lemma deliver_rearms:
  assumes "armed c" and "current (view (deliver c sg)) \<noteq> current (view c)"
  shows "timers (deliver c sg) = [(fresh c, current (view (deliver c sg)))] \<and>
    cleanup (deliver c sg) = Some (fresh c) \<and> fresh c \<notin> fst ` set (timers c)"
proof (cases sg)
  case (Fire h)
  with assms show ?thesis
    by (auto simp: view_rerender advance_def split: option.splits)
next
  case Completed
  with assms show ?thesis
    by (auto simp: armed_def rerender_def effect_def runCleanup_def setInterval_def
        clearInterval_def split: option.splits if_splits)
next
  case (Pointer h)
  with assms show ?thesis
    by (cases h) (auto simp: view_rerender split: if_splits)
next
  case Unmount
  with assms show ?thesis
    by (auto simp: view_unmount split: if_splits)
qed

lemma deliver_gone: "\<not> mounted c \<Longrightarrow> timers c = [] \<Longrightarrow> deliver c sg = c"
  by (cases sg) simp_all

lemma foldl_deliver_gone: "\<not> mounted c \<Longrightarrow> timers c = [] \<Longrightarrow> foldl deliver c sigs = c"
  by (induction sigs) (simp_all add: deliver_gone)

lemma unmounted_empty:
  "armed c \<Longrightarrow> \<not> mounted (deliver c Unmount) \<and> timers (deliver c Unmount) = []"
  by (auto simp: armed_def unmount_def runCleanup_def clearInterval_def split: option.splits)

lemma armed_count: "armed c \<Longrightarrow> length (timers c) = (if mounted c then 1 else 0)"
  by (auto simp: armed_def split: option.splits)

section \<open>The slide scheduler\<close>

text \<open>
  C1. A scheduler tick sets \<open>next\<close> to \<open>(current + 1) mod N\<close>, the direction to forward
  (1, never the backward value -1), \<open>transitioning\<close> to true and \<open>displayedIndex\<close> to
  \<open>(current + 1) mod N\<close>, and leaves \<open>current\<close> as it was. The states of the carousel
  hold an index in \<open>current\<close>, which is never negative: there the truncating remainder of
  the source is \<open>mod\<close>.
\<close>

theorem tick_sets_next:
  assumes "0 \<le> current s"
  shows "next (tick s) = Some ((current s + 1) mod int (length images)) \<and>
    direction (tick s) = 1 \<and> direction (tick s) \<noteq> - 1 \<and>
    isTransitioning (tick s) \<and>
    displayedIndex (tick s) = (current s + 1) mod int (length images) \<and>
    current (tick s) = current s"
  using assms by (simp add: tick_def advance_def images_length js_rem_succ)

theorem tick_sets_next_witness:
  "0 \<le> current (initial\<lparr>current := 2\<rparr>) \<and>
   next (tick (initial\<lparr>current := 2\<rparr>)) = Some 0 \<and>
   direction (tick (initial\<lparr>current := 2\<rparr>)) = 1 \<and>
   isTransitioning (tick (initial\<lparr>current := 2\<rparr>)) \<and>
   displayedIndex (tick (initial\<lparr>current := 2\<rparr>)) = 0 \<and>
   current (tick (initial\<lparr>current := 2\<rparr>)) = 2"
proof -
  have h: "0 \<le> current (initial\<lparr>current := 2\<rparr>)"
    by simp
  show ?thesis
    using h tick_sets_next [OF h] by (simp add: images_length)
qed

section \<open>The transition state machine\<close>

text \<open>
  C2. In a state whose \<open>next\<close> is not null, the completion handler commits \<open>next\<close> to
  \<open>current\<close>, clears \<open>next\<close>, sets \<open>transitioning\<close> to false and sets \<open>displayedIndex\<close>
  to the new \<open>current\<close>, which is the committed \<open>next\<close>.
\<close>

theorem complete_commits_next:
  assumes "next s = Some n"
  shows "current (handleAnimationComplete s) = n \<and>
    next (handleAnimationComplete s) = None \<and>
    \<not> isTransitioning (handleAnimationComplete s) \<and>
    displayedIndex (handleAnimationComplete s) = current (handleAnimationComplete s) \<and>
    displayedIndex (handleAnimationComplete s) = n"
  using assms by (simp add: handleAnimationComplete_def)

theorem complete_commits_next_witness:
  "next (tick initial) = Some 1 \<and>
   current (handleAnimationComplete (tick initial)) = 1 \<and>
   next (handleAnimationComplete (tick initial)) = None \<and>
   \<not> isTransitioning (handleAnimationComplete (tick initial)) \<and>
   displayedIndex (handleAnimationComplete (tick initial)) = 1"
proof -
  have h: "next (tick initial) = Some 1"
    by (simp add: tick_def advance_def initial_def images_length js_rem_def)
  show ?thesis
    using h complete_commits_next [OF h] by simp
qed

text \<open>
  C3. From the initial state, after \<open>k\<close> ticks each followed by its completion (no tick
  overlaps a transition), \<open>current\<close> is \<open>k mod N\<close>, \<open>N\<close> the number of slides.
\<close>

theorem current_after_ticks:
  "current (run (alternating k)) = int k mod int (length images)"
proof (induction k)
  case 0
  show ?case
    by (simp add: alternating_def run_Nil initial_def)
next
  case (Suc k)
  have range: "0 \<le> current (run (alternating k))"
    using consistent_range [OF consistent_run] by blast
  have "current (run (alternating (Suc k))) =
      current (handleAnimationComplete (tick (run (alternating k))))"
    by (simp add: alternating_Suc run_append)
  also have "\<dots> = (current (run (alternating k)) + 1) mod 3"
    by (rule cycle_current [OF range])
  also have "\<dots> = (int k mod 3 + 1) mod 3"
    using Suc.IH by (simp add: images_length)
  also have "\<dots> = int (Suc k) mod 3"
    by presburger
  finally show ?case
    by (simp add: images_length)
qed

text \<open>
  C4. In every state a run of ticks, completions (and hover events) reaches,
  \<open>transitioning\<close> is true exactly when \<open>next\<close> is not null, and while it is true \<open>next\<close>
  is an index in \<open>[0, N)\<close> other than \<open>current\<close>.
\<close>

theorem transitioning_iff_next:
  "(isTransitioning (run evs) \<longleftrightarrow> next (run evs) \<noteq> None) \<and>
   (isTransitioning (run evs) \<longrightarrow>
     (\<exists>n. next (run evs) = Some n \<and> 0 \<le> n \<and> n < int (length images) \<and>
        n \<noteq> current (run evs)))"
proof -
  have c: "consistent (run evs)"
    by (rule consistent_run)
  show ?thesis
  proof (cases "next (run evs)")
    case None
    with c show ?thesis
      by (simp add: consistent_def)
  next
    case (Some n)
    with c have t: "isTransitioning (run evs)"
      and n: "n = (current (run evs) + 1) mod 3"
      and r: "0 \<le> current (run evs)" "current (run evs) < 3"
      by (simp_all add: consistent_def images_length)
    from n r have "0 \<le> n \<and> n < 3 \<and> n \<noteq> current (run evs)"
      by presburger
    with t Some show ?thesis
      by (simp add: images_length)
  qed
qed

theorem transitioning_iff_next_witness:
  "isTransitioning (run [Tick, AnimationComplete, Tick]) \<and>
   (\<exists>n. next (run [Tick, AnimationComplete, Tick]) = Some n \<and> 0 \<le> n \<and>
      n < int (length images) \<and> n \<noteq> current (run [Tick, AnimationComplete, Tick]))"
proof -
  have h: "isTransitioning (run [Tick, AnimationComplete, Tick])"
    by (simp add: run_def tick_def advance_def)
  show ?thesis
    using h transitioning_iff_next [of "[Tick, AnimationComplete, Tick]"] by blast
qed

text \<open>
  C5. In every reachable state, the initial one included, \<open>displayedIndex\<close> is \<open>next\<close>
  while \<open>transitioning\<close> is true and \<open>current\<close> while it is false.
\<close>

theorem displayed_follows:
  "(if isTransitioning (run evs) then next (run evs) = Some (displayedIndex (run evs))
    else displayedIndex (run evs) = current (run evs))"
  using consistent_run [of evs]
  by (cases "next (run evs)") (simp_all add: consistent_def)

theorem displayed_follows_witness:
  "isTransitioning (run [Tick]) \<and> next (run [Tick]) = Some (displayedIndex (run [Tick])) \<and>
   \<not> isTransitioning (run [Tick, AnimationComplete]) \<and>
   displayedIndex (run [Tick, AnimationComplete]) = current (run [Tick, AnimationComplete]) \<and>
   displayedIndex (run []) = current (run [])"
proof -
  have a: "isTransitioning (run [Tick])"
    by (simp add: run_def tick_def advance_def)
  have b: "\<not> isTransitioning (run [Tick, AnimationComplete])"
    by (simp add: run_def tick_def advance_def handleAnimationComplete_def)
  have c: "\<not> isTransitioning (run [])"
    by (simp add: run_def initial_def)
  show ?thesis
    using a b c displayed_follows [of "[Tick]"] displayed_follows [of "[Tick, AnimationComplete]"]
      displayed_follows [of "[]"]
    by simp
qed

text \<open>
  C6. In every reachable state \<open>displayedIndex\<close> lies in \<open>[0, N)\<close>: no tick and no
  completion assigns it a value outside the slide set.
\<close>

theorem displayed_in_range:
  "0 \<le> displayedIndex (run evs) \<and> displayedIndex (run evs) < int (length images)"
proof -
  have c: "consistent (run evs)"
    by (rule consistent_run)
  show ?thesis
  proof (cases "next (run evs)")
    case None
    with c show ?thesis
      by (simp add: consistent_def)
  next
    case (Some n)
    with c have "displayedIndex (run evs) = (current (run evs) + 1) mod 3"
      by (simp add: consistent_def images_length)
    then show ?thesis
      by (simp add: images_length)
  qed
qed

text \<open>
  C7. The completion handler is idempotent: a second call finds \<open>next\<close> null and changes
  nothing, so two calls in a row leave the state one call leaves.
\<close>

theorem complete_idempotent:
  "next (handleAnimationComplete s) = None \<and>
   handleAnimationComplete (handleAnimationComplete s) = handleAnimationComplete s"
  by (cases "next s") (simp_all add: handleAnimationComplete_def)

section \<open>Hover\<close>

text \<open>
  C10. Entering or leaving a navigation item or the label changes \<open>hoveredNav\<close> and
  \<open>hoveredMe\<close> only: \<open>current\<close>, \<open>next\<close>, \<open>transitioning\<close>, \<open>displayedIndex\<close> and the
  direction stay as they were, in every state and for every hover event.
\<close>

theorem hover_keeps_carousel:
  "current (onMouse s h) = current s \<and> next (onMouse s h) = next s \<and>
   isTransitioning (onMouse s h) = isTransitioning s \<and>
   displayedIndex (onMouse s h) = displayedIndex s \<and>
   direction (onMouse s h) = direction s \<and>
   onMouse s h = s\<lparr>hoveredNav := hoveredNav (onMouse s h), hoveredMe := hoveredMe (onMouse s h)\<rparr>"
  by (cases h) simp_all

section \<open>Re-arming and teardown\<close>

text \<open>
  C9. Whenever \<open>current\<close> changes, the interval armed before is cleared and a new one is
  armed (under a handle the table did not hold, its callback closing over the new
  \<open>current\<close>); so after every signal the table holds exactly one interval while the
  component is mounted, and never more than one.
\<close>

theorem one_pending_advance:
  "length (timers (play sigs)) = (if mounted (play sigs) then 1 else 0) \<and>
   length (timers (play sigs)) \<le> 1 \<and>
   (current (view (deliver (play sigs) sg)) \<noteq> current (view (play sigs)) \<longrightarrow>
      timers (deliver (play sigs) sg) =
        [(fresh (play sigs), current (view (deliver (play sigs) sg)))] \<and>
      fresh (play sigs) \<notin> fst ` set (timers (play sigs)))"
  using armed_count [OF armed_play, of sigs] deliver_rearms [OF armed_play, of sigs sg]
  by simp

theorem one_pending_advance_witness:
  "current (view (deliver (play [Fire 0]) Completed)) \<noteq> current (view (play [Fire 0])) \<and>
   mounted (play [Fire 0]) \<and> timers (play [Fire 0]) = [(0, 0)] \<and>
   timers (deliver (play [Fire 0]) Completed) = [(1, 1)]"
proof -
  have p: "play [Fire 0] =
      \<lparr>view = tick initial, mounted = True, timers = [(0, 0)], cleanup = Some 0, fresh = 1\<rparr>"
    by (simp add: play_def mount_def effect_def setInterval_def rerender_def tick_def
        advance_def initial_def)
  have h: "current (view (deliver (play [Fire 0]) Completed)) \<noteq> current (view (play [Fire 0]))"
    by (simp add: p view_rerender handleAnimationComplete_def tick_def advance_def initial_def
        images_length js_rem_def)
  have v: "current (view (deliver (play [Fire 0]) Completed)) = 1"
    by (simp add: p view_rerender handleAnimationComplete_def tick_def advance_def initial_def
        images_length js_rem_def)
  have f: "fresh (play [Fire 0]) = 1"
    by (simp add: p)
  have m: "mounted (play [Fire 0])" and q: "timers (play [Fire 0]) = [(0, 0)]"
    by (simp_all add: p)
  from h one_pending_advance [of "[Fire 0]" Completed]
  have "timers (deliver (play [Fire 0]) Completed) =
      [(fresh (play [Fire 0]), current (view (deliver (play [Fire 0]) Completed)))]"
    by blast
  then have "timers (deliver (play [Fire 0]) Completed) = [(1, 1)]"
    by (simp only: f v)
  with h m q show ?thesis
    by blast
qed

text \<open>
  C8. Teardown, also in the middle of a transition, clears the interval: the timer table
  is empty afterwards, and no signal that arrives later (a timer expiry, an animation
  completion, a mouse event) changes any field of the state.
\<close>

theorem teardown_inert:
  "timers (deliver (play sigs) Unmount) = [] \<and>
   view (deliver (play sigs) Unmount) = view (play sigs) \<and>
   foldl deliver (deliver (play sigs) Unmount) later = deliver (play sigs) Unmount"
proof -
  have gone: "\<not> mounted (deliver (play sigs) Unmount) \<and> timers (deliver (play sigs) Unmount) = []"
    by (rule unmounted_empty [OF armed_play])
  then have "foldl deliver (deliver (play sigs) Unmount) later = deliver (play sigs) Unmount"
    by (simp add: foldl_deliver_gone)
  moreover have "view (deliver (play sigs) Unmount) = view (play sigs)"
    by (simp add: view_unmount)
  ultimately show ?thesis
    using gone by simp
qed

theorem teardown_inert_witness:
  "isTransitioning (view (play [Fire 0])) \<and>
   timers (play [Fire 0]) = [(0, 0)] \<and>
   timers (deliver (play [Fire 0]) Unmount) = [] \<and>
   view (foldl deliver (deliver (play [Fire 0]) Unmount) [Fire 0, Completed, Pointer MeEnter]) =
     view (play [Fire 0])"
proof -
  have p: "play [Fire 0] =
      \<lparr>view = tick initial, mounted = True, timers = [(0, 0)], cleanup = Some 0, fresh = 1\<rparr>"
    by (simp add: play_def mount_def effect_def setInterval_def rerender_def tick_def
        advance_def initial_def)
  have t: "isTransitioning (view (play [Fire 0]))"
    by (simp add: p tick_def advance_def)
  have q: "timers (play [Fire 0]) = [(0, 0)]"
    by (simp add: p)
  from teardown_inert [of "[Fire 0]" "[Fire 0, Completed, Pointer MeEnter]"]
  have "timers (deliver (play [Fire 0]) Unmount) = [] \<and>
      view (foldl deliver (deliver (play [Fire 0]) Unmount) [Fire 0, Completed, Pointer MeEnter]) =
        view (play [Fire 0])"
    by (elim conjE) (simp only:)
  with t q show ?thesis
    by blast
qed

end
